theory Spec2Isabelle
  imports Complex_Main
begin

section \<open>JavaScript values reaching the constructor\<close>

text \<open>
  The constructor \<^verbatim>\<open>debounce(fn, wait, modeOrOptions)\<close> of \<^verbatim>\<open>src/debounce.ts\<close> inspects
  its arguments at run time (\<^verbatim>\<open>typeof\<close>, \<^verbatim>\<open>??\<close>, \<^verbatim>\<open>?.\<close>, \<^verbatim>\<open>includes\<close>), and the test suite
  passes it ill-typed arguments through \<^verbatim>\<open>as any\<close>. Its arguments are therefore modelled
  as untyped JavaScript values.

  A JavaScript number is an IEEE double. The source only compares \<^verbatim>\<open>wait\<close> with \<^verbatim>\<open>0\<close>, so
  a number is modelled by its mathematical value: \<open>NaN\<close>, the two infinities, or a
  finite real (\<open>-0\<close> and \<open>+0\<close> are both \<open>Fin 0\<close>; they compare alike).
\<close>

datatype jsnum = NaN | NegInfinity | PosInfinity | Fin real

text \<open>
  Objects and functions carry their properties as an association list (own and
  inherited properties flattened, first binding wins); a function also carries an
  identity. Property getters with side effects are not modelled.
\<close>

datatype jsval =
    JUndefined
  | JNull
  | JBool bool
  | JNum jsnum
  | JBigInt int
  | JStr string
  | JSymbol nat
  | JFunction nat "(string \<times> jsval) list"
  | JObject "(string \<times> jsval) list"

text \<open>The \<^verbatim>\<open>typeof\<close> operator.\<close>

fun typeof :: "jsval \<Rightarrow> string" where
  "typeof JUndefined = ''undefined''"
| "typeof JNull = ''object''"
| "typeof (JBool b) = ''boolean''"
| "typeof (JNum n) = ''number''"
| "typeof (JBigInt i) = ''bigint''"
| "typeof (JStr s) = ''string''"
| "typeof (JSymbol k) = ''symbol''"
| "typeof (JFunction k ps) = ''function''"
| "typeof (JObject ps) = ''object''"

text \<open>The nullish coalescing operator \<^verbatim>\<open>a ?? b\<close>.\<close>

fun nullish :: "jsval \<Rightarrow> bool" where
  "nullish JUndefined = True"
| "nullish JNull = True"
| "nullish v = False"

definition coalesce :: "jsval \<Rightarrow> jsval \<Rightarrow> jsval" where
  "coalesce a b = (if nullish a then b else a)"

text \<open>
  Optional member access \<^verbatim>\<open>v?.name\<close>: \<^verbatim>\<open>undefined\<close> on \<^verbatim>\<open>null\<close> and \<^verbatim>\<open>undefined\<close>, the
  property on an object or function, and \<^verbatim>\<open>undefined\<close> on every other primitive (whose
  prototype has no such property).
\<close>

fun opt_member :: "jsval \<Rightarrow> string \<Rightarrow> jsval" where
  "opt_member (JObject ps) name = (case map_of ps name of None \<Rightarrow> JUndefined | Some v \<Rightarrow> v)"
| "opt_member (JFunction k ps) name = (case map_of ps name of None \<Rightarrow> JUndefined | Some v \<Rightarrow> v)"
| "opt_member v name = JUndefined"

text \<open>The comparison \<^verbatim>\<open>a < b\<close> on numbers: false whenever an operand is \<open>NaN\<close>.\<close>

fun num_less :: "jsnum \<Rightarrow> jsnum \<Rightarrow> bool" where
  "num_less NaN b = False"
| "num_less a NaN = False"
| "num_less NegInfinity NegInfinity = False"
| "num_less NegInfinity b = True"
| "num_less a NegInfinity = False"
| "num_less PosInfinity b = False"
| "num_less a PosInfinity = True"
| "num_less (Fin x) (Fin y) = (x < y)"

section \<open>The mode enumeration (\<^verbatim>\<open>src/types.ts\<close>)\<close>

datatype DebounceMode = TRAILING | LEADING | BOTH

text \<open>The string each member of the enum stands for at run time.\<close>

fun mode_value :: "DebounceMode \<Rightarrow> string" where
  "mode_value TRAILING = ''trailing''"
| "mode_value LEADING = ''leading''"
| "mode_value BOTH = ''both''"

text \<open>\<^verbatim>\<open>Object.values(DebounceMode)\<close>, in declaration order.\<close>

definition mode_values :: "DebounceMode list" where
  "mode_values = [TRAILING, LEADING, BOTH]"

section \<open>The controller: the closure of one \<^verbatim>\<open>debounce\<close> call\<close>

text \<open>
  The closure holds the validated \<^verbatim>\<open>wait\<close> and \<^verbatim>\<open>mode\<close> and the four mutable variables
  \<^verbatim>\<open>timeoutId\<close>, \<^verbatim>\<open>lastArgs\<close>, \<^verbatim>\<open>lastThis\<close> and \<^verbatim>\<open>leadingCalled\<close>; \<open>None\<close> is \<^verbatim>\<open>null\<close>.
  A timer handle is a natural number. Handles are truthy (a positive integer in a
  browser, a \<^verbatim>\<open>Timeout\<close> object in Node), and so is every argument array: the tests
  \<^verbatim>\<open>if (timeoutId)\<close> and \<^verbatim>\<open>timeoutId && lastArgs\<close> are tests against \<^verbatim>\<open>null\<close>.
\<close>

record ('r, 'v) controller =
  wait :: jsnum
  mode :: DebounceMode
  timeoutId :: "nat option"
  lastArgs :: "'v list option"
  lastThis :: "'r option"
  leadingCalled :: bool

datatype js_error = TypeError string

text \<open>
  \<^verbatim>\<open>debounce(fn, wait, modeOrOptions)\<close>, lines 34 to 59: the defaults, the three checks
  in the source's order, and the initial values of the closure variables. The
  comparison \<^verbatim>\<open>wait < 0\<close> is only reached for a number, by the short-circuit of
  \<^verbatim>\<open>||\<close>. \<^verbatim>\<open>includes\<close> compares by \<^verbatim>\<open>SameValueZero\<close>, which on strings is equality.
\<close>

definition debounce :: "jsval \<Rightarrow> jsval \<Rightarrow> jsval \<Rightarrow> js_error + ('r, 'v) controller" where
  "debounce fn wait0 modeOrOptions =
    (let wait1 = coalesce wait0 (JNum (Fin 0));
         mode1 = (if typeof modeOrOptions = ''string'' then modeOrOptions
                  else coalesce (opt_member modeOrOptions ''mode'') (JStr (mode_value TRAILING)))
     in if typeof fn \<noteq> ''function'' then Inl (TypeError ''Expected fn to be a function'')
        else case wait1 of
          JNum n \<Rightarrow>
            if num_less n (Fin 0) then Inl (TypeError ''Expected wait to be a non-negative number'')
            else (case find (\<lambda>m. JStr (mode_value m) = mode1) mode_values of
                    None \<Rightarrow> Inl (TypeError ''Invalid debounce mode'')
                  | Some m \<Rightarrow>
                      Inr \<lparr>wait = n, mode = m, timeoutId = None, lastArgs = None,
                           lastThis = None, leadingCalled = False\<rparr>)
        | _ \<Rightarrow> Inl (TypeError ''Expected wait to be a non-negative number''))"

section \<open>The environment: target, clock and timer facility\<close>

text \<open>
  One invocation of the target, \<^verbatim>\<open>fn.apply(lastThis, lastArgs)\<close>: the instant, the
  receiver and the argument list. \<^verbatim>\<open>apply\<close> with a \<^verbatim>\<open>null\<close> argument array passes no
  arguments.
\<close>

datatype ('r, 'v) invocation =
  Invocation (at: real) (receiver: "'r option") (arguments: "'v list")

text \<open>
  The target is any function that, given the invocations made so far and the present
  one, either returns (its result is discarded) or raises: \<open>fn history i\<close> holds when the
  invocation \<open>i\<close> raises. A target that calls back into its own controller is outside
  the model.
\<close>

type_synonym ('r, 'v) target = "('r, 'v) invocation list \<Rightarrow> ('r, 'v) invocation \<Rightarrow> bool"

datatype outcome = Returned | Raised

text \<open>
  A scheduled callback. Every callback the controller schedules is the arrow function
  of lines 91 to 97, which differs from call to call only in the two constants it
  captures, \<^verbatim>\<open>shouldCallLeading\<close> and \<^verbatim>\<open>shouldCallTrailing\<close>; a timer is its handle, its
  deadline and these two.
\<close>

datatype timer = Timer (t_id: nat) (t_due: real) (t_lead: bool) (t_trail: bool)

text \<open>
  The world of one controller: its closure, and around it the clock, the timers the
  facility holds for it (oldest first), the facility's next fresh handle, and the log
  of the target's invocations (oldest first).
\<close>

record ('r, 'v) world = "('r, 'v) controller" +
  now :: real
  timers :: "timer list"
  next_handle :: nat
  calls :: "('r, 'v) invocation list"

text \<open>A controller just constructed, at instant \<open>t0\<close>, nothing scheduled, nothing invoked.\<close>

definition start :: "('r, 'v) controller \<Rightarrow> real \<Rightarrow> ('r, 'v) world" where
  "start c t0 =
    \<lparr>wait = wait c, mode = mode c, timeoutId = timeoutId c, lastArgs = lastArgs c,
     lastThis = lastThis c, leadingCalled = leadingCalled c,
     now = t0, timers = [], next_handle = 1, calls = []\<rparr>"

text \<open>
  Modelled from the spec: the delayed-callback facility (\<^verbatim>\<open>setTimeout\<close>, \<^verbatim>\<open>clearTimeout\<close>
  and the clock), a collaborator of the host and no code of the repository. Section 6
  of the specification gives its contract: schedule a callback to run once after a
  delay, returning a cancellable handle; cancelling is a no-op on a handle that has
  fired or was cancelled. The delay of a finite non-negative number is that number;
  hosts clamp anything else, modelled as \<open>0\<close>.
\<close>

fun delay_ms :: "jsnum \<Rightarrow> real" where
  "delay_ms (Fin x) = max 0 x"
| "delay_ms n = 0"

definition setTimeout :: "bool \<Rightarrow> bool \<Rightarrow> jsnum \<Rightarrow> ('r, 'v) world \<Rightarrow> nat \<times> ('r, 'v) world" where
  "setTimeout ld tr delay w =
    (next_handle w,
     w\<lparr>timers := timers w @ [Timer (next_handle w) (now w + delay_ms delay) ld tr],
       next_handle := Suc (next_handle w)\<rparr>)"

definition clearTimeout :: "nat \<Rightarrow> ('r, 'v) world \<Rightarrow> ('r, 'v) world" where
  "clearTimeout h w = w\<lparr>timers := filter (\<lambda>tm. t_id tm \<noteq> h) (timers w)\<rparr>"

section \<open>The operations of \<^verbatim>\<open>src/debounce.ts\<close>\<close>

text \<open>Sequencing: a statement that raised ends the operation; the state it left stays.\<close>

fun and_then ::
  "outcome \<times> ('r, 'v) world \<Rightarrow> (('r, 'v) world \<Rightarrow> outcome \<times> ('r, 'v) world) \<Rightarrow> outcome \<times> ('r, 'v) world"
where
  "and_then (Raised, w) k = (Raised, w)"
| "and_then (Returned, w) k = k w"

text \<open>\<^verbatim>\<open>cleanup\<close>, lines 61 to 66.\<close>

definition cleanup :: "('r, 'v) world \<Rightarrow> ('r, 'v) world" where
  "cleanup w =
    (case timeoutId w of
       None \<Rightarrow> w
     | Some h \<Rightarrow> (clearTimeout h w)\<lparr>timeoutId := None\<rparr>)"

text \<open>\<^verbatim>\<open>fn.apply(lastThis, lastArgs)\<close>: the invocation is logged, then returns or raises.\<close>

definition apply_fn :: "('r, 'v) target \<Rightarrow> ('r, 'v) world \<Rightarrow> outcome \<times> ('r, 'v) world" where
  "apply_fn fn w =
    (let i = Invocation (now w) (lastThis w) (case lastArgs w of None \<Rightarrow> [] | Some a \<Rightarrow> a)
     in (if fn (calls w) i then Raised else Returned, w\<lparr>calls := calls w @ [i]\<rparr>))"

text \<open>The callback of lines 91 to 97, with the two constants it captured.\<close>

definition timer_callback ::
  "('r, 'v) target \<Rightarrow> bool \<Rightarrow> bool \<Rightarrow> ('r, 'v) world \<Rightarrow> outcome \<times> ('r, 'v) world"
where
  "timer_callback fn shouldCallLeading shouldCallTrailing w =
    and_then
      (if shouldCallTrailing \<and> (\<not> shouldCallLeading \<or> leadingCalled w)
       then apply_fn fn w else (Returned, w))
      (\<lambda>w1. (Returned, w1\<lparr>timeoutId := None, leadingCalled := False\<rparr>))"

text \<open>The debounced function itself, lines 68 to 98, called with receiver \<open>this\<close>.\<close>

definition debounced ::
  "('r, 'v) target \<Rightarrow> 'r \<Rightarrow> 'v list \<Rightarrow> ('r, 'v) world \<Rightarrow> outcome \<times> ('r, 'v) world"
where
  "debounced fn this args w =
    (let w1 = w\<lparr>lastArgs := Some args, lastThis := Some this\<rparr>;
         shouldCallLeading = ((mode w1 = LEADING \<or> mode w1 = BOTH) \<and> \<not> leadingCalled w1);
         shouldCallTrailing = (mode w1 = TRAILING \<or> mode w1 = BOTH);
         w2 = cleanup w1
     in and_then
          (if shouldCallLeading
           then and_then (apply_fn fn w2) (\<lambda>w3. (Returned, w3\<lparr>leadingCalled := True\<rparr>))
           else (Returned, w2))
          (\<lambda>w4. let (h, w5) = setTimeout shouldCallLeading shouldCallTrailing (wait w4) w4
                in (Returned, w5\<lparr>timeoutId := Some h\<rparr>)))"

text \<open>\<^verbatim>\<open>debounced.cancel\<close>, lines 101 to 104.\<close>

definition cancel :: "('r, 'v) world \<Rightarrow> ('r, 'v) world" where
  "cancel w = (cleanup w)\<lparr>leadingCalled := False\<rparr>"

text \<open>\<^verbatim>\<open>debounced.flush\<close>, lines 106 to 112.\<close>

definition flush :: "('r, 'v) target \<Rightarrow> ('r, 'v) world \<Rightarrow> outcome \<times> ('r, 'v) world" where
  "flush fn w =
    (if timeoutId w \<noteq> None \<and> lastArgs w \<noteq> None
     then and_then (apply_fn fn (cleanup w)) (\<lambda>w1. (Returned, w1\<lparr>leadingCalled := False\<rparr>))
     else (Returned, w))"

text \<open>\<^verbatim>\<open>debounced.pending\<close>, line 114: the answer, and the world it leaves.\<close>

definition pending :: "('r, 'v) world \<Rightarrow> bool \<times> ('r, 'v) world" where
  "pending w = (timeoutId w \<noteq> None, w)"

section \<open>The passing of time\<close>

text \<open>
  Modelled from the spec: the clock of the delayed-callback facility (section 6), as a
  virtual clock drives it. A timer that is due leaves the facility, the clock stands
  at its deadline, and its callback runs; what the callback raises is the host's to
  report and the state it left stays. \<open>advance fn d\<close> lets \<open>d\<close> time units pass: the
  timers due by then fire in the order of their deadlines (the older first among
  equals), and the clock ends \<open>d\<close> later. A negative \<open>d\<close> is refused and nothing changes.
\<close>

definition fire :: "('r, 'v) target \<Rightarrow> timer \<Rightarrow> ('r, 'v) world \<Rightarrow> ('r, 'v) world" where
  "fire fn tm w =
    (if tm \<in> set (timers w)
     then snd (timer_callback fn (t_lead tm) (t_trail tm)
                 (w\<lparr>now := max (now w) (t_due tm), timers := remove1 tm (timers w)\<rparr>))
     else w)"

definition advance :: "('r, 'v) target \<Rightarrow> real \<Rightarrow> ('r, 'v) world \<Rightarrow> ('r, 'v) world" where
  "advance fn d w =
    (if d < 0 then w
     else (fold (fire fn) (sort_key t_due (filter (\<lambda>tm. t_due tm \<le> now w + d) (timers w))) w)
            \<lparr>now := now w + d\<rparr>)"

text \<open>What can happen to a controller, and a history of such events.\<close>

datatype ('r, 'v) event = Call 'r "'v list" | Cancel | Flush | Advance real

fun step :: "('r, 'v) target \<Rightarrow> ('r, 'v) event \<Rightarrow> ('r, 'v) world \<Rightarrow> ('r, 'v) world" where
  "step fn (Call this args) w = snd (debounced fn this args w)"
| "step fn Cancel w = cancel w"
| "step fn Flush w = snd (flush fn w)"
| "step fn (Advance d) w = advance fn d w"

definition run :: "('r, 'v) target \<Rightarrow> ('r, 'v) event list \<Rightarrow> ('r, 'v) world \<Rightarrow> ('r, 'v) world" where
  "run fn evs w = fold (step fn) evs w"

section \<open>Vocabulary of the properties\<close>

text \<open>
  What the specification's construction rule speaks of. A target is callable when it
  is a function. A wait is refused when it is given (neither \<^verbatim>\<open>undefined\<close> nor \<^verbatim>\<open>null\<close>)
  and is no number, or is a number below zero; \<open>NaN\<close> is a number and is not below
  zero. The mode argument is \<open>modeOrOptions\<close> itself when that is a string, and else its
  property \<^verbatim>\<open>mode\<close> unless that is absent, \<^verbatim>\<open>undefined\<close> or \<^verbatim>\<open>null\<close>; any other
  \<open>modeOrOptions\<close> gives no mode argument.
\<close>

fun callable :: "jsval \<Rightarrow> bool" where
  "callable (JFunction k ps) = True"
| "callable v = False"

fun wait_refused :: "jsval \<Rightarrow> bool" where
  "wait_refused JUndefined = False"
| "wait_refused JNull = False"
| "wait_refused (JNum NegInfinity) = True"
| "wait_refused (JNum (Fin x)) = (x < 0)"
| "wait_refused (JNum n) = False"
| "wait_refused v = True"

fun present :: "jsval option \<Rightarrow> jsval option" where
  "present None = None"
| "present (Some JUndefined) = None"
| "present (Some JNull) = None"
| "present (Some v) = Some v"

fun mode_argument :: "jsval \<Rightarrow> jsval option" where
  "mode_argument (JStr s) = Some (JStr s)"
| "mode_argument (JObject ps) = present (map_of ps ''mode'')"
| "mode_argument (JFunction k ps) = present (map_of ps ''mode'')"
| "mode_argument v = None"

definition recognized :: "jsval \<Rightarrow> bool" where
  "recognized v = (v = JStr ''trailing'' \<or> v = JStr ''leading'' \<or> v = JStr ''both'')"

definition mode_refused :: "jsval \<Rightarrow> bool" where
  "mode_refused modeOrOptions =
    (case mode_argument modeOrOptions of None \<Rightarrow> False | Some v \<Rightarrow> \<not> recognized v)"

text \<open>A target that returns from every invocation.\<close>

definition never_raises :: "('r, 'v) target \<Rightarrow> bool" where
  "never_raises fn = (\<forall>h i. \<not> fn h i)"

text \<open>
  A run of calls after a first one: each entry is the time since the call before it,
  the receiver and the arguments. \<open>burst_events\<close> is the history it stands for, \<open>span\<close>
  the time from the first call to the last, \<open>last_call\<close> the receiver and arguments of
  the last call.
\<close>

fun burst_events :: "(real \<times> 'r \<times> 'v list) list \<Rightarrow> ('r, 'v) event list" where
  "burst_events [] = []"
| "burst_events ((gap, this, args) # cs) = Advance gap # Call this args # burst_events cs"

fun span :: "(real \<times> 'r \<times> 'v list) list \<Rightarrow> real" where
  "span [] = 0"
| "span ((gap, this, args) # cs) = gap + span cs"

fun last_call :: "'r \<times> 'v list \<Rightarrow> (real \<times> 'r \<times> 'v list) list \<Rightarrow> 'r \<times> 'v list" where
  "last_call p [] = p"
| "last_call p ((gap, this, args) # cs) = last_call (this, args) cs"

text \<open>
  The state a controller can be in. The facility holds at most one timer for it, the
  one \<open>timeoutId\<close> names, whose callback captured \<open>shouldCallLeading\<close> only with
  \<open>leadingCalled\<close> set and \<open>shouldCallTrailing\<close> as the mode has it; a handle is owned
  only with arguments recorded; outside \<open>TRAILING\<close> a handle is owned only with
  \<open>leadingCalled\<close> set, and in \<open>TRAILING\<close> it is never set.
\<close>

definition sound :: "('r, 'v) world \<Rightarrow> bool" where
  "sound w =
    ((case timers w of
        [] \<Rightarrow> True
      | [tm] \<Rightarrow> timeoutId w = Some (t_id tm) \<and> (t_lead tm \<longrightarrow> leadingCalled w) \<and>
                 t_trail tm = (mode w \<noteq> LEADING)
      | _ \<Rightarrow> False) \<and>
     (timeoutId w \<noteq> None \<longrightarrow> lastArgs w \<noteq> None) \<and>
     (timeoutId w \<noteq> None \<and> mode w \<noteq> TRAILING \<longrightarrow> leadingCalled w) \<and>
     (mode w = TRAILING \<longrightarrow> \<not> leadingCalled w))"

text \<open>
  What holds besides while the target never raises: \<open>leadingCalled\<close> is set only with a
  handle owned, and an owned handle is a timer the facility still holds.
\<close>

definition quiet :: "('r, 'v) world \<Rightarrow> bool" where
  "quiet w =
    (sound w \<and> (leadingCalled w \<longrightarrow> timeoutId w \<noteq> None) \<and>
     (timeoutId w \<noteq> None \<longrightarrow> timers w \<noteq> []))"

text \<open>
  A countdown is running: the one timer is due at \<open>due\<close>, and the receiver and
  arguments recorded last are \<open>this\<close> and \<open>args\<close>.
\<close>

definition armed :: "('r, 'v) world \<Rightarrow> real \<Rightarrow> 'r \<Rightarrow> 'v list \<Rightarrow> bool" where
  "armed w due this args =
    (sound w \<and> (case timers w of [tm] \<Rightarrow> t_due tm = due | _ \<Rightarrow> False) \<and>
     lastThis w = Some this \<and> lastArgs w = Some args)"

section \<open>The reachable states\<close>

lemma sound_debounced: "sound w \<Longrightarrow> sound (snd (debounced fn r a w))"
  by (cases "mode w")
     (auto simp: sound_def debounced_def cleanup_def clearTimeout_def setTimeout_def
        apply_fn_def Let_def split: list.splits option.splits if_splits)

lemma sound_cancel: "sound w \<Longrightarrow> sound (cancel w)"
  by (auto simp: sound_def cancel_def cleanup_def clearTimeout_def
        split: list.splits option.splits if_splits)

lemma sound_flush: "sound w \<Longrightarrow> sound (snd (flush fn w))"
  by (auto simp: sound_def flush_def cleanup_def clearTimeout_def apply_fn_def Let_def
        split: list.splits option.splits if_splits)

lemma sound_advance: "sound w \<Longrightarrow> sound (advance fn d w)"
  by (auto simp: sound_def advance_def fire_def timer_callback_def apply_fn_def Let_def
        split: list.splits option.splits if_splits)

lemma sound_step: "sound w \<Longrightarrow> sound (step fn e w)"
  by (cases e) (simp_all add: sound_debounced sound_cancel sound_flush sound_advance)

lemma sound_run: "sound w \<Longrightarrow> sound (run fn evs w)"
  by (induction evs arbitrary: w) (simp_all add: run_def sound_step)

lemma quiet_debounced: "never_raises fn \<Longrightarrow> quiet w \<Longrightarrow> quiet (snd (debounced fn r a w))"
  by (cases "mode w")
     (auto simp: quiet_def never_raises_def sound_def debounced_def cleanup_def
        clearTimeout_def setTimeout_def apply_fn_def Let_def
        split: list.splits option.splits if_splits)

lemma quiet_cancel: "quiet w \<Longrightarrow> quiet (cancel w)"
  by (auto simp: quiet_def sound_def cancel_def cleanup_def clearTimeout_def
        split: list.splits option.splits if_splits)

lemma quiet_flush: "never_raises fn \<Longrightarrow> quiet w \<Longrightarrow> quiet (snd (flush fn w))"
  by (auto simp: quiet_def never_raises_def sound_def flush_def cleanup_def clearTimeout_def
        apply_fn_def Let_def split: list.splits option.splits if_splits)

lemma quiet_advance: "never_raises fn \<Longrightarrow> quiet w \<Longrightarrow> quiet (advance fn d w)"
  by (auto simp: quiet_def never_raises_def sound_def advance_def fire_def
        timer_callback_def apply_fn_def Let_def split: list.splits option.splits if_splits)

lemma quiet_step: "never_raises fn \<Longrightarrow> quiet w \<Longrightarrow> quiet (step fn e w)"
  by (cases e) (simp_all add: quiet_debounced quiet_cancel quiet_flush quiet_advance)

lemma quiet_run: "never_raises fn \<Longrightarrow> quiet w \<Longrightarrow> quiet (run fn evs w)"
  by (induction evs arbitrary: w) (simp_all add: run_def quiet_step)

lemma debounce_initial:
  assumes "debounce f wt mo = Inr c"
  shows "timeoutId c = None \<and> lastArgs c = None \<and> lastThis c = None \<and> \<not> leadingCalled c"
  using assms
  by (auto simp: debounce_def Let_def split: if_splits jsval.splits option.splits)

lemma quiet_start: "debounce f wt mo = Inr c \<Longrightarrow> quiet (start c t0)"
  by (drule debounce_initial) (simp add: quiet_def sound_def start_def)

lemma sound_start: "debounce f wt mo = Inr c \<Longrightarrow> sound (start c t0)"
  using quiet_start[of f wt mo c t0] by (simp add: quiet_def)

lemma sound_reachable: "debounce f wt mo = Inr c \<Longrightarrow> sound (run fn evs (start c t0))"
  by (simp add: sound_run sound_start)

lemma quiet_reachable:
  "never_raises fn \<Longrightarrow> debounce f wt mo = Inr c \<Longrightarrow> quiet (run fn evs (start c t0))"
  by (simp add: quiet_run quiet_start)

lemma run_append: "run fn (xs @ ys) w = run fn ys (run fn xs w)"
  by (simp add: run_def)

lemma run_Cons: "run fn (e # evs) w = run fn evs (step fn e w)"
  by (simp add: run_def)

lemma run_Nil: "run fn [] w = w"
  by (simp add: run_def)

section \<open>Construction\<close>

lemma find_mode:
  "find (\<lambda>m. JStr (mode_value m) = v) mode_values =
    (if v = JStr ''trailing'' then Some TRAILING
     else if v = JStr ''leading'' then Some LEADING
     else if v = JStr ''both'' then Some BOTH else None)"
  by (auto simp: mode_values_def)

lemma wait_refused_iff:
  "wait_refused wt =
    (case coalesce wt (JNum (Fin 0)) of JNum n \<Rightarrow> num_less n (Fin 0) | _ \<Rightarrow> True)"
  by (cases wt rule: wait_refused.cases) (simp_all add: coalesce_def)

lemma present_coalesce:
  "coalesce (case m of None \<Rightarrow> JUndefined | Some v \<Rightarrow> v) d =
    (case present m of None \<Rightarrow> d | Some v \<Rightarrow> v)"
  by (cases m rule: present.cases) (simp_all add: coalesce_def)

lemma mode_argument_eq:
  "(if typeof mo = ''string'' then mo else coalesce (opt_member mo ''mode'') d) =
    (case mode_argument mo of None \<Rightarrow> d | Some v \<Rightarrow> v)"
  by (cases mo) (simp_all add: present_coalesce, simp_all add: coalesce_def)

text \<open>
  C4, as amended. Construction raises (a \<open>TypeError\<close>) exactly when the target is not
  callable, or the wait is refused (given and not a number, or a number below zero;
  \<open>NaN\<close> passes), or a mode argument is given, bare or as the \<^verbatim>\<open>mode\<close> of the options, and
  is not one of \<^verbatim>\<open>trailing\<close>, \<^verbatim>\<open>leading\<close>, \<^verbatim>\<open>both\<close>. Otherwise it returns a controller
  with no handle, no recorded arguments or receiver and \<open>leadingCalled\<close> false, whose
  wait is the one given, or \<open>0\<close> when none is, and whose mode is the one given, or
  \<open>TRAILING\<close> when none is.
\<close>

theorem construction_validates:
  "((\<exists>e. debounce fn wt mo = Inl e) \<longleftrightarrow> \<not> callable fn \<or> wait_refused wt \<or> mode_refused mo) \<and>
   (\<forall>c. debounce fn wt mo = Inr c \<longrightarrow>
      timeoutId c = None \<and> lastArgs c = None \<and> lastThis c = None \<and> \<not> leadingCalled c \<and>
      coalesce wt (JNum (Fin 0)) = JNum (wait c) \<and>
      (case mode_argument mo of
         None \<Rightarrow> mode c = TRAILING
       | Some v \<Rightarrow> v = JStr (mode_value (mode c))))"
proof -
  have fn: "callable fn = (typeof fn = ''function'')"
    by (cases fn) simp_all
  show ?thesis
    unfolding debounce_def Let_def mode_argument_eq find_mode fn wait_refused_iff
      mode_refused_def recognized_def
    by (auto split: jsval.splits option.splits)
qed

text \<open>
  C4, witness: the defaults on a bare function with an empty options object, and the
  three refusals of the test suite.
\<close>

theorem construction_validates_witness:
  "debounce (JFunction 0 []) JUndefined (JObject []) =
     Inr \<lparr>wait = Fin 0, mode = TRAILING, timeoutId = None, lastArgs = None,
          lastThis = None, leadingCalled = False\<rparr> \<and>
   (\<exists>e. debounce (JFunction 0 []) (JNum (Fin (-1))) JUndefined = Inl e) \<and>
   (\<exists>e. debounce (JStr ''not a function'') JUndefined JUndefined = Inl e) \<and>
   (\<exists>e. debounce (JFunction 0 []) (JNum (Fin 100)) (JStr ''invalid'') = Inl e)"
  using construction_validates[of "JFunction 0 []" "JNum (Fin (-1))" JUndefined]
    construction_validates[of "JStr ''not a function''" JUndefined JUndefined]
    construction_validates[of "JFunction 0 []" "JNum (Fin 100)" "JStr ''invalid''"]
  by (simp add: debounce_def coalesce_def mode_values_def mode_refused_def recognized_def)

text \<open>
  C4, counterexample to the claim as stated: the number \<open>42\<close> as \<open>modeOrOptions\<close> is
  neither a mode nor an options object, and construction accepts it, with mode
  \<open>TRAILING\<close>.
\<close>

theorem construction_accepts_other_value:
  "debounce (JFunction 0 []) (JNum (Fin 100)) (JNum (Fin 42)) =
     Inr \<lparr>wait = Fin 100, mode = TRAILING, timeoutId = None, lastArgs = None,
          lastThis = None, leadingCalled = False\<rparr>"
  by (simp add: debounce_def coalesce_def mode_values_def)

section \<open>Evaluation and fixed configuration\<close>

lemmas op_defs = debounced_def cleanup_def clearTimeout_def setTimeout_def apply_fn_def
  cancel_def flush_def pending_def advance_def fire_def timer_callback_def Let_def

lemma config_fire: "mode (fire fn tm w) = mode w \<and> wait (fire fn tm w) = wait w"
  by (simp add: fire_def timer_callback_def apply_fn_def Let_def)

lemma config_fold_fire:
  "mode (fold (fire fn) tms w) = mode w \<and> wait (fold (fire fn) tms w) = wait w"
  by (induction tms arbitrary: w) (simp_all add: config_fire)

lemma config_advance: "mode (advance fn d w) = mode w \<and> wait (advance fn d w) = wait w"
  by (simp add: advance_def config_fold_fire)

lemma config_debounced:
  "mode (snd (debounced fn r a w)) = mode w \<and> wait (snd (debounced fn r a w)) = wait w"
  by (simp add: debounced_def cleanup_def clearTimeout_def setTimeout_def apply_fn_def Let_def
        split: option.splits)

lemma config_cancel: "mode (cancel w) = mode w \<and> wait (cancel w) = wait w"
  by (simp add: cancel_def cleanup_def clearTimeout_def split: option.splits)

lemma config_flush: "mode (snd (flush fn w)) = mode w \<and> wait (snd (flush fn w)) = wait w"
  by (simp add: flush_def cleanup_def clearTimeout_def apply_fn_def Let_def split: option.splits)

lemma config_step: "mode (step fn e w) = mode w \<and> wait (step fn e w) = wait w"
  by (cases e) (simp_all add: config_debounced config_cancel config_flush config_advance)

lemma config_run: "mode (run fn evs w) = mode w \<and> wait (run fn evs w) = wait w"
  by (induction evs arbitrary: w) (simp_all add: run_def config_step)

lemma config_reachable:
  "mode (run fn evs (start c t0)) = mode c \<and> wait (run fn evs (start c t0)) = wait c"
  by (simp add: config_run start_def)

lemma debounce_wait: "debounce f wt mo = Inr c \<Longrightarrow> wait c = Fin ms \<Longrightarrow> 0 \<le> ms"
  by (auto simp: debounce_def Let_def split: if_splits jsval.splits option.splits)

section \<open>Invariants of the controller\<close>

lemma timers_owned:
  "sound w \<Longrightarrow>
    length (timers w) \<le> 1 \<and> (\<forall>tm \<in> set (timers w). timeoutId w = Some (t_id tm))"
  by (auto simp: sound_def split: list.splits)

lemma call_keeps_leading: "leadingCalled w \<Longrightarrow> leadingCalled (snd (debounced fn r a w))"
  by (auto simp: debounced_def cleanup_def clearTimeout_def setTimeout_def Let_def
        split: option.splits)

lemma cancel_resets: "\<not> leadingCalled (cancel w)"
  by (simp add: cancel_def)

lemma quiet_flush_resets:
  "never_raises fn \<Longrightarrow> quiet w \<Longrightarrow> \<not> leadingCalled (snd (flush fn w))"
  by (auto simp: quiet_def sound_def never_raises_def flush_def apply_fn_def Let_def)

lemma advance_cases:
  "sound w \<Longrightarrow> timers (advance fn d w) \<noteq> timers w \<Longrightarrow>
    timers w \<noteq> [] \<and> timers (advance fn d w) = []"
  by (auto simp: sound_def advance_def fire_def timer_callback_def apply_fn_def Let_def
        split: list.splits if_splits)

lemma advance_idle:
  "sound w \<Longrightarrow> timers (advance fn d w) = timers w \<Longrightarrow>
    leadingCalled (advance fn d w) = leadingCalled w"
  by (auto simp: sound_def advance_def fire_def timer_callback_def apply_fn_def Let_def
        split: list.splits if_splits)

lemma quiet_fire_resets:
  "never_raises fn \<Longrightarrow> quiet w \<Longrightarrow> timers (advance fn d w) \<noteq> timers w \<Longrightarrow>
    \<not> leadingCalled (advance fn d w)"
  by (auto simp: quiet_def never_raises_def sound_def advance_def fire_def timer_callback_def
        apply_fn_def Let_def split: list.splits if_splits)

text \<open>
  C5, as amended. In every state \<open>w\<close> a controller reaches from its construction, by
  any history of calls, cancels, flushes and passing time, with a target that may
  raise: the facility holds at most one timer for it, the one \<open>timeoutId\<close> names; and
  \<open>lastArgs\<close> is recorded whenever a handle is owned. While the target never raises,
  moreover: \<open>leadingCalled\<close> is set only with a handle owned; it is false after a cancel,
  after a flush and after a timer fired; and an event that resets it is a cancel, a
  flush or the passing of time in which the timer fired.
\<close>

theorem controller_invariants:
  assumes "debounce f wt mo = Inr c" and "w = run fn evs (start c t0)"
  shows "length (timers w) \<le> 1 \<and> (\<forall>tm \<in> set (timers w). timeoutId w = Some (t_id tm)) \<and>
     (timeoutId w \<noteq> None \<longrightarrow> lastArgs w \<noteq> None) \<and>
     (never_raises fn \<longrightarrow>
        (leadingCalled w \<longrightarrow> timeoutId w \<noteq> None) \<and>
        \<not> leadingCalled (cancel w) \<and>
        \<not> leadingCalled (snd (flush fn w)) \<and>
        (\<forall>d. timers (advance fn d w) \<noteq> timers w \<longrightarrow> \<not> leadingCalled (advance fn d w)) \<and>
        (\<forall>e. leadingCalled w \<and> \<not> leadingCalled (step fn e w) \<longrightarrow>
           e = Cancel \<or> e = Flush \<or>
           (\<exists>d. e = Advance d \<and> timers w \<noteq> [] \<and> timers (advance fn d w) = [])))"
proof -
  have s: "sound w"
    using assms by (simp add: sound_reachable)
  have owned: "length (timers w) \<le> 1 \<and> (\<forall>tm \<in> set (timers w). timeoutId w = Some (t_id tm))"
    using s by (rule timers_owned)
  have args: "timeoutId w \<noteq> None \<longrightarrow> lastArgs w \<noteq> None"
    using s by (simp add: sound_def)
  have calm: "(leadingCalled w \<longrightarrow> timeoutId w \<noteq> None) \<and>
        \<not> leadingCalled (cancel w) \<and>
        \<not> leadingCalled (snd (flush fn w)) \<and>
        (\<forall>d. timers (advance fn d w) \<noteq> timers w \<longrightarrow> \<not> leadingCalled (advance fn d w)) \<and>
        (\<forall>e. leadingCalled w \<and> \<not> leadingCalled (step fn e w) \<longrightarrow>
           e = Cancel \<or> e = Flush \<or>
           (\<exists>d. e = Advance d \<and> timers w \<noteq> [] \<and> timers (advance fn d w) = []))"
    if nr: "never_raises fn"
  proof -
    have q: "quiet w"
      using assms nr by (simp add: quiet_reachable)
    have only: "e = Cancel \<or> e = Flush \<or>
           (\<exists>d. e = Advance d \<and> timers w \<noteq> [] \<and> timers (advance fn d w) = [])"
      if "leadingCalled w" and "\<not> leadingCalled (step fn e w)" for e
    proof (cases e)
      case (Call r a)
      with that call_keeps_leading[of w fn r a] show ?thesis by simp
    next
      case (Advance d)
      with that advance_idle[OF s, of fn d] advance_cases[OF s, of fn d] show ?thesis
        by auto
    qed simp_all
    show ?thesis
      using q nr quiet_flush_resets[OF nr q] quiet_fire_resets[OF nr q] only
      by (auto simp: quiet_def cancel_resets)
  qed
  show ?thesis
    using owned args calm by blast
qed

text \<open>
  C5, witness: a controller in mode \<open>BOTH\<close> with wait \<open>100\<close> and a target that never
  raises, called at \<open>0\<close> and again at \<open>50\<close>.
\<close>

theorem controller_invariants_witness:
  "debounce (JFunction 0 []) (JNum (Fin 100)) (JStr ''both'') =
     Inr \<lparr>wait = Fin 100, mode = BOTH, timeoutId = None, lastArgs = None,
          lastThis = None, leadingCalled = False\<rparr> \<and>
   never_raises (\<lambda>h i. False) \<and>
   (let w = run (\<lambda>h i. False) [Call () [1::nat], Advance 50, Call () [2]]
              (start \<lparr>wait = Fin 100, mode = BOTH, timeoutId = None, lastArgs = None,
                      lastThis = None, leadingCalled = False\<rparr> 0)
    in timers w = [Timer 2 150 False True] \<and> timeoutId w = Some 2 \<and>
       lastArgs w = Some [2] \<and> leadingCalled w \<and> \<not> leadingCalled (cancel w) \<and>
       \<not> leadingCalled (snd (flush (\<lambda>h i. False) w)))"
  using controller_invariants[of "JFunction 0 []" "JNum (Fin 100)" "JStr ''both''"
      "\<lparr>wait = Fin 100, mode = BOTH, timeoutId = None, lastArgs = None,
        lastThis = None, leadingCalled = False\<rparr>" _ "\<lambda>h i. False"
      "[Call () [1::nat], Advance 50, Call () [2]]" 0, OF _ refl]
  by (simp add: debounce_def coalesce_def mode_values_def never_raises_def run_def start_def
        op_defs)

text \<open>
  C5, counterexample to the claim as stated: in mode \<open>BOTH\<close>, with a target that raises
  on every invocation but the first, a call followed by a flush leaves \<open>leadingCalled\<close>
  set with no handle owned.
\<close>

theorem failed_flush_leaves_leading_set:
  "debounce (JFunction 0 []) (JNum (Fin 100)) (JStr ''both'') =
     Inr \<lparr>wait = Fin 100, mode = BOTH, timeoutId = None, lastArgs = None,
          lastThis = None, leadingCalled = False\<rparr> \<and>
   leadingCalled (run (\<lambda>h i. h \<noteq> []) [Call () [1::nat], Flush]
     (start \<lparr>wait = Fin 100, mode = BOTH, timeoutId = None, lastArgs = None,
          lastThis = None, leadingCalled = False\<rparr> 0)) \<and>
   timeoutId (run (\<lambda>h i. h \<noteq> []) [Call () [1::nat], Flush]
     (start \<lparr>wait = Fin 100, mode = BOTH, timeoutId = None, lastArgs = None,
          lastThis = None, leadingCalled = False\<rparr> 0)) = None"
  by (simp add: debounce_def coalesce_def mode_values_def run_def start_def op_defs)

section \<open>One call, one countdown\<close>

lemma call_leads:
  "mode w \<noteq> TRAILING \<Longrightarrow> \<not> leadingCalled w \<Longrightarrow>
    calls (snd (debounced fn r a w)) = calls w @ [Invocation (now w) (Some r) a]"
  by (cases "mode w")
     (auto simp: debounced_def cleanup_def clearTimeout_def setTimeout_def apply_fn_def Let_def
        split: option.splits)

lemma call_suppressed:
  "mode w = TRAILING \<or> leadingCalled w \<Longrightarrow> calls (snd (debounced fn r a w)) = calls w"
  by (auto simp: debounced_def cleanup_def clearTimeout_def setTimeout_def apply_fn_def Let_def
        split: option.splits)

lemma call_records:
  "lastArgs (snd (debounced fn r a w)) = Some a \<and> lastThis (snd (debounced fn r a w)) = Some r \<and>
   now (snd (debounced fn r a w)) = now w"
  by (auto simp: debounced_def cleanup_def clearTimeout_def setTimeout_def apply_fn_def Let_def
        split: option.splits)

lemma call_returned:
  "sound w \<Longrightarrow> fst (debounced fn r a w) = Returned \<Longrightarrow>
    timers (snd (debounced fn r a w)) \<noteq> [] \<and> timeoutId (snd (debounced fn r a w)) \<noteq> None"
  by (auto simp: debounced_def cleanup_def clearTimeout_def setTimeout_def apply_fn_def Let_def
        split: option.splits if_splits)

lemma call_raised:
  assumes "sound w" and "mode w \<noteq> TRAILING" and "\<not> leadingCalled w"
    and "fn (calls w) (Invocation (now w) (Some r) a)"
  shows "fst (debounced fn r a w) = Raised \<and> timers (snd (debounced fn r a w)) = [] \<and>
     next_handle (snd (debounced fn r a w)) = next_handle w \<and>
     timeoutId (snd (debounced fn r a w)) = None \<and>
     \<not> leadingCalled (snd (debounced fn r a w))"
  using assms
  by (cases "mode w")
     (auto simp: sound_def debounced_def cleanup_def clearTimeout_def setTimeout_def apply_fn_def
        Let_def split: option.splits list.splits)

lemma call_arms:
  assumes "sound w" and "wait w = Fin ms" and "0 \<le> ms"
    and "mode w = TRAILING \<or> leadingCalled w \<or> \<not> fn (calls w) (Invocation (now w) (Some r) a)"
  shows "fst (debounced fn r a w) = Returned \<and>
     armed (snd (debounced fn r a w)) (now w + ms) r a \<and>
     now (snd (debounced fn r a w)) = now w \<and>
     calls (snd (debounced fn r a w)) =
       calls w @ (if mode w \<noteq> TRAILING \<and> \<not> leadingCalled w
                  then [Invocation (now w) (Some r) a] else [])"
  using assms
  by (cases "mode w")
     (auto simp: armed_def sound_def debounced_def cleanup_def clearTimeout_def setTimeout_def
        apply_fn_def Let_def split: list.splits option.splits if_splits)

section \<open>Time and the pending timer\<close>

lemma advance_no_timer:
  "timers w = [] \<Longrightarrow> advance fn d w = (if d < 0 then w else w\<lparr>now := now w + d\<rparr>)"
  by (simp add: advance_def)

lemma advance_early:
  assumes "armed w due r a" and "0 \<le> g" and "now w + g < due"
  shows "advance fn g w = w\<lparr>now := now w + g\<rparr>"
  using assms
  by (auto simp: armed_def advance_def split: list.splits)

lemma armed_later: "armed w due r a \<Longrightarrow> armed (w\<lparr>now := t\<rparr>) due r a"
  by (auto simp: armed_def sound_def split: list.splits)

lemma armed_timer:
  "armed w due r a \<Longrightarrow>
    map t_due (timers w) = [due] \<and> timeoutId w \<noteq> None \<and>
    (\<forall>tm \<in> set (timers w). t_trail tm = (mode w \<noteq> LEADING) \<and> (\<not> t_lead tm \<or> leadingCalled w))"
  by (auto simp: armed_def sound_def split: list.splits)

lemma advance_due:
  assumes "armed w due r a" and "0 \<le> d" and "due \<le> now w + d" and "now w \<le> due"
  shows "calls (advance fn d w) =
       calls w @ (if mode w = LEADING then [] else [Invocation due (Some r) a]) \<and>
     timers (advance fn d w) = [] \<and> now (advance fn d w) = now w + d \<and>
     (mode w = LEADING \<or> \<not> fn (calls w) (Invocation due (Some r) a) \<longrightarrow>
        timeoutId (advance fn d w) = None \<and> \<not> leadingCalled (advance fn d w))"
  using assms
  by (cases "mode w")
     (auto simp: armed_def sound_def advance_def fire_def timer_callback_def apply_fn_def
        Let_def max_def split: list.splits option.splits if_splits)

lemma burst_then_advance:
  assumes "armed w (now w + ms) r a" and "0 \<le> ms" and "0 \<le> d"
  shows "calls (advance fn d w) =
       calls w @ (if d < ms \<or> mode w = LEADING then [] else [Invocation (now w + ms) (Some r) a]) \<and>
     now (advance fn d w) = now w + d \<and>
     (d < ms \<longrightarrow> timers (advance fn d w) = timers w \<and> timeoutId (advance fn d w) = timeoutId w) \<and>
     (ms \<le> d \<longrightarrow> timers (advance fn d w) = []) \<and>
     (ms \<le> d \<and> (mode w = LEADING \<or> \<not> fn (calls w) (Invocation (now w + ms) (Some r) a)) \<longrightarrow>
        timeoutId (advance fn d w) = None \<and> \<not> leadingCalled (advance fn d w))"
proof (cases "d < ms")
  case True
  with advance_early[OF assms(1,3), of fn] show ?thesis
    by simp
next
  case False
  with advance_due[OF assms(1,3), of fn] assms(2) show ?thesis
    by simp
qed

section \<open>Bursts\<close>

lemma burst_armed:
  assumes "armed w (now w + ms) r a" and "wait w = Fin ms" and "0 \<le> ms"
    and "\<forall>(gap, this, args) \<in> set cs. 0 \<le> gap \<and> gap < ms"
  shows "armed (run fn (burst_events cs) w) (now w + span cs + ms)
       (fst (last_call (r, a) cs)) (snd (last_call (r, a) cs)) \<and>
     now (run fn (burst_events cs) w) = now w + span cs \<and>
     calls (run fn (burst_events cs) w) = calls w"
  using assms
proof (induction cs arbitrary: w r a)
  case Nil
  then show ?case by (simp add: run_def)
next
  case (Cons x cs)
  obtain g r1 a1 where x: "x = (g, r1, a1)"
    by (cases x) auto
  from Cons.prems x have g: "0 \<le> g" "g < ms"
    by auto
  let ?wa = "w\<lparr>now := now w + g\<rparr>"
  let ?w1 = "snd (debounced fn r1 a1 ?wa)"
  have adv: "advance fn g w = ?wa"
    using Cons.prems(1) g by (intro advance_early) auto
  have armed_a: "armed ?wa (now w + ms) r a"
    using Cons.prems(1) by (rule armed_later)
  have sound_a: "sound ?wa"
    using armed_a by (simp add: armed_def)
  have open_a: "mode ?wa = TRAILING \<or> leadingCalled ?wa"
    using armed_a by (auto simp: armed_def sound_def split: list.splits)
  have wait_a: "wait ?wa = Fin ms"
    using Cons.prems(2) by simp
  from call_arms[OF sound_a wait_a Cons.prems(3), of fn r1 a1] open_a
  have one: "armed ?w1 (now ?w1 + ms) r1 a1" "now ?w1 = now w + g" "calls ?w1 = calls w"
    by auto
  have wait1: "wait ?w1 = Fin ms"
    using wait_a by (simp add: config_debounced)
  from Cons.prems(4) have rest: "\<forall>(gap, this, args) \<in> set cs. 0 \<le> gap \<and> gap < ms"
    by simp
  from Cons.IH[OF one(1) wait1 Cons.prems(3) rest] one(2,3) adv x
  show ?case
    by (simp add: run_def add.assoc)
qed

lemma burst_from:
  assumes "sound w" and "wait w = Fin ms" and "0 \<le> ms"
    and "mode w = TRAILING \<or> leadingCalled w \<or> \<not> fn (calls w) (Invocation (now w) (Some r) a)"
    and "\<forall>(gap, this, args) \<in> set cs. 0 \<le> gap \<and> gap < ms"
  shows "armed (run fn (Call r a # burst_events cs) w) (now w + span cs + ms)
       (fst (last_call (r, a) cs)) (snd (last_call (r, a) cs)) \<and>
     now (run fn (Call r a # burst_events cs) w) = now w + span cs \<and>
     mode (run fn (Call r a # burst_events cs) w) = mode w \<and>
     calls (run fn (Call r a # burst_events cs) w) =
       calls w @ (if mode w \<noteq> TRAILING \<and> \<not> leadingCalled w
                  then [Invocation (now w) (Some r) a] else [])"
proof -
  let ?w1 = "snd (debounced fn r a w)"
  from call_arms[of w ms fn r a] assms(1-4)
  have one: "armed ?w1 (now ?w1 + ms) r a" "now ?w1 = now w"
    "calls ?w1 = calls w @ (if mode w \<noteq> TRAILING \<and> \<not> leadingCalled w
                  then [Invocation (now w) (Some r) a] else [])"
    by auto
  have wait1: "wait ?w1 = Fin ms"
    using assms(2) by (simp add: config_debounced)
  from burst_armed[OF one(1) wait1 assms(3,5), of fn] one(2,3)
  show ?thesis
    by (simp add: run_Cons config_run config_debounced)
qed

section \<open>Cancel and flush\<close>

lemma cancel_sound:
  "sound w \<Longrightarrow> calls (cancel w) = calls w \<and> timers (cancel w) = [] \<and>
    timeoutId (cancel w) = None \<and> now (cancel w) = now w"
  by (auto simp: sound_def cancel_def cleanup_def clearTimeout_def split: option.splits list.splits)

lemma cancel_twice: "cancel (cancel w) = cancel w"
  by (simp add: cancel_def cleanup_def clearTimeout_def split: option.splits)

lemma cancel_idle: "timeoutId w = None \<Longrightarrow> cancel w = w\<lparr>leadingCalled := False\<rparr>"
  by (simp add: cancel_def cleanup_def)

lemma flush_idle: "timeoutId w = None \<Longrightarrow> flush fn w = (Returned, w)"
  by (simp add: flush_def)

lemma flush_pending:
  assumes "sound w" and "timeoutId w \<noteq> None"
  shows "\<exists>args. lastArgs w = Some args \<and>
     calls (snd (flush fn w)) = calls w @ [Invocation (now w) (lastThis w) args] \<and>
     timers (snd (flush fn w)) = [] \<and> timeoutId (snd (flush fn w)) = None \<and>
     (if fn (calls w) (Invocation (now w) (lastThis w) args)
      then fst (flush fn w) = Raised \<and> leadingCalled (snd (flush fn w)) = leadingCalled w
      else fst (flush fn w) = Returned \<and> \<not> leadingCalled (snd (flush fn w)))"
  using assms
  by (auto simp: sound_def flush_def cleanup_def clearTimeout_def apply_fn_def Let_def
        split: list.splits)

lemma fire_pending:
  assumes "sound w" and "timers (advance fn d w) \<noteq> timers w"
  shows "timeoutId (advance fn d w) \<noteq> None \<longleftrightarrow>
     (\<exists>i. calls (advance fn d w) = calls w @ [i] \<and> fn (calls w) i)"
  using assms
  by (auto simp: sound_def advance_def fire_def timer_callback_def apply_fn_def Let_def
        split: list.splits if_splits)

lemmas eval_defs = debounce_def coalesce_def mode_values_def never_raises_def run_def start_def
  op_defs

section \<open>The three modes\<close>

text \<open>
  C1. A controller in mode \<open>TRAILING\<close> with a finite wait \<open>ms\<close>, in any state \<open>w0\<close> it can
  reach, is called, and called again by each entry of \<open>cs\<close> less than \<open>ms\<close> after the
  call before. The calls themselves invoke nothing, and when \<open>d\<close> more time has passed
  the target has been invoked not at all if \<open>d < ms\<close>, and else exactly once: \<open>ms\<close>
  after the last call, with the receiver and arguments of the last call. The target
  may raise.
\<close>

theorem trailing_burst:
  assumes "debounce f wt mo = Inr c" and "mode c = TRAILING" and "wait c = Fin ms"
    and "w0 = run fn evs (start c t0)"
    and "\<forall>(gap, this, args) \<in> set cs. 0 \<le> gap \<and> gap < ms"
    and "0 \<le> d"
  shows "calls (run fn (Call r a # burst_events cs) w0) = calls w0 \<and>
     calls (run fn (Call r a # burst_events cs @ [Advance d]) w0) =
       calls w0 @
         (if d < ms then []
          else [Invocation (now w0 + span cs + ms)
                  (Some (fst (last_call (r, a) cs))) (snd (last_call (r, a) cs))])"
proof -
  have ms: "0 \<le> ms"
    using assms(1,3) by (rule debounce_wait)
  have s: "sound w0"
    using assms(1,4) by (simp add: sound_reachable)
  have cfg: "mode w0 = TRAILING" "wait w0 = Fin ms"
    using assms(2,3,4) by (simp_all add: config_reachable)
  let ?w1 = "run fn (Call r a # burst_events cs) w0"
  from burst_from[OF s cfg(2) ms _ assms(5), of fn r a] cfg(1)
  have b: "armed ?w1 (now ?w1 + ms) (fst (last_call (r, a) cs)) (snd (last_call (r, a) cs))"
    "now ?w1 = now w0 + span cs" "mode ?w1 = TRAILING" "calls ?w1 = calls w0"
    by auto
  have "run fn (Call r a # burst_events cs @ [Advance d]) w0 = advance fn d ?w1"
    using run_append[of fn "Call r a # burst_events cs" "[Advance d]" w0]
    by (simp add: run_Cons run_Nil)
  with burst_then_advance[OF b(1) ms assms(6), of fn] b(2,3,4)
  show ?thesis
    by simp
qed

text \<open>
  C1, witness: the example of the specification. Wait \<open>100\<close>, calls at \<open>0\<close> and \<open>50\<close>:
  nothing by \<open>99\<close>, one invocation at \<open>150\<close> with the arguments of the second call.
\<close>

theorem trailing_burst_witness:
  "let c = \<lparr>wait = Fin 100, mode = TRAILING, timeoutId = None, lastArgs = None,
            lastThis = None, leadingCalled = False\<rparr>;
       w0 = run (\<lambda>h i. False) [] (start c 0)
   in debounce (JFunction 0 []) (JNum (Fin 100)) JUndefined = Inr c \<and>
      calls (run (\<lambda>h i. False) (Call ''a'' [1::nat] # burst_events [(50, ''b'', [2])] @ [Advance 49]) w0) = [] \<and>
      calls (run (\<lambda>h i. False) (Call ''a'' [1::nat] # burst_events [(50, ''b'', [2])] @ [Advance 100]) w0) =
        [Invocation 150 (Some ''b'') [2]]"
  using trailing_burst[where f = "JFunction 0 []" and wt = "JNum (Fin 100)" and mo = JUndefined
      and c = "\<lparr>wait = Fin 100, mode = TRAILING, timeoutId = None, lastArgs = None,
            lastThis = None, leadingCalled = False\<rparr>" and ms = 100
      and fn = "\<lambda>h i. False" and evs = "[]" and ?t0.0 = 0 and r = "''a''" and a = "[1::nat]"
      and cs = "[(50, ''b'', [2])]" and d = 49, OF _ _ _ refl]
    trailing_burst[where f = "JFunction 0 []" and wt = "JNum (Fin 100)" and mo = JUndefined
      and c = "\<lparr>wait = Fin 100, mode = TRAILING, timeoutId = None, lastArgs = None,
            lastThis = None, leadingCalled = False\<rparr>" and ms = 100
      and fn = "\<lambda>h i. False" and evs = "[]" and ?t0.0 = 0 and r = "''a''" and a = "[1::nat]"
      and cs = "[(50, ''b'', [2])]" and d = 100, OF _ _ _ refl]
  by (simp add: debounce_def coalesce_def mode_values_def run_Nil start_def)

text \<open>
  C2, as amended. A controller in mode \<open>BOTH\<close> with a finite wait \<open>ms\<close>, in a reachable
  state \<open>w0\<close> in which \<open>leadingCalled\<close> is false (as it is wherever nothing is pending,
  while the target never raises), is called with a target that returns from this
  first invocation, and called again by each entry of \<open>cs\<close> less than \<open>ms\<close> after
  the call before. The first call invokes the target at once with its own
  receiver and arguments, the later calls invoke nothing, and the timer pending at
  the end of the burst satisfies the condition of its callback
  (\<open>shouldCallTrailing\<close>, and \<open>shouldCallLeading\<close> only with \<open>leadingCalled\<close>). When \<open>d\<close>
  more time has passed the burst has made exactly that one invocation if \<open>d < ms\<close>,
  and else exactly two: the second \<open>ms\<close> after the last call, with the receiver and
  arguments of the last call.
\<close>

theorem both_burst:
  assumes "debounce f wt mo = Inr c" and "mode c = BOTH" and "wait c = Fin ms"
    and "w0 = run fn evs (start c t0)"
    and "\<not> leadingCalled w0 \<or> (never_raises fn \<and> \<not> fst (pending w0))"
    and "\<not> fn (calls w0) (Invocation (now w0) (Some r) a)"
    and "\<forall>(gap, this, args) \<in> set cs. 0 \<le> gap \<and> gap < ms"
    and "0 \<le> d"
  shows "calls (step fn (Call r a) w0) = calls w0 @ [Invocation (now w0) (Some r) a] \<and>
     calls (run fn (Call r a # burst_events cs) w0) =
       calls w0 @ [Invocation (now w0) (Some r) a] \<and>
     (\<forall>tm \<in> set (timers (run fn (Call r a # burst_events cs) w0)).
        t_trail tm \<and> (\<not> t_lead tm \<or> leadingCalled (run fn (Call r a # burst_events cs) w0))) \<and>
     calls (run fn (Call r a # burst_events cs @ [Advance d]) w0) =
       calls w0 @ Invocation (now w0) (Some r) a #
         (if d < ms then []
          else [Invocation (now w0 + span cs + ms)
                  (Some (fst (last_call (r, a) cs))) (snd (last_call (r, a) cs))])"
proof -
  have ms: "0 \<le> ms"
    using assms(1,3) by (rule debounce_wait)
  have s: "sound w0"
    using assms(1,4) by (simp add: sound_reachable)
  have cfg: "mode w0 = BOTH" "wait w0 = Fin ms"
    using assms(2,3,4) by (simp_all add: config_reachable)
  have nl: "\<not> leadingCalled w0"
  proof (cases "leadingCalled w0")
    case True
    with assms(5) have nr: "never_raises fn" and idle: "\<not> fst (pending w0)"
      by auto
    have "quiet w0"
      using nr assms(1,4) by (simp add: quiet_reachable)
    with True idle show ?thesis
      by (simp add: quiet_def pending_def)
  qed simp
  let ?w1 = "run fn (Call r a # burst_events cs) w0"
  from burst_from[of w0 ms fn r a cs] s cfg ms nl assms(6,7)
  have b: "armed ?w1 (now ?w1 + ms) (fst (last_call (r, a) cs)) (snd (last_call (r, a) cs))"
    "now ?w1 = now w0 + span cs" "mode ?w1 = BOTH"
    "calls ?w1 = calls w0 @ [Invocation (now w0) (Some r) a]"
    by auto
  have first: "calls (step fn (Call r a) w0) = calls w0 @ [Invocation (now w0) (Some r) a]"
    using call_leads[of w0 fn r a] cfg(1) nl by simp
  have cond: "\<forall>tm \<in> set (timers ?w1). t_trail tm \<and> (\<not> t_lead tm \<or> leadingCalled ?w1)"
    using armed_timer[OF b(1)] b(3) by simp
  have "run fn (Call r a # burst_events cs @ [Advance d]) w0 = advance fn d ?w1"
    using run_append[of fn "Call r a # burst_events cs" "[Advance d]" w0]
    by (simp add: run_Cons run_Nil)
  with burst_then_advance[OF b(1) ms assms(8), of fn] b(2,3,4)
  have last: "calls (run fn (Call r a # burst_events cs @ [Advance d]) w0) =
       calls w0 @ Invocation (now w0) (Some r) a #
         (if d < ms then []
          else [Invocation (now w0 + span cs + ms)
                  (Some (fst (last_call (r, a) cs))) (snd (last_call (r, a) cs))])"
    by simp
  show ?thesis
    using first b(4) cond last by blast
qed

text \<open>
  C2, witness: wait \<open>100\<close>, calls at \<open>0\<close> and \<open>50\<close>: one invocation at \<open>0\<close> with the first
  call's arguments, and by \<open>150\<close> a second with the second call's.
\<close>

theorem both_burst_witness:
  "let c = \<lparr>wait = Fin 100, mode = BOTH, timeoutId = None, lastArgs = None,
            lastThis = None, leadingCalled = False\<rparr>;
       w0 = run (\<lambda>h i. False) [] (start c 0)
   in debounce (JFunction 0 []) (JNum (Fin 100)) (JStr ''both'') = Inr c \<and>
      \<not> leadingCalled w0 \<and>
      calls (step (\<lambda>h i. False) (Call ''a'' [1::nat]) w0) = [Invocation 0 (Some ''a'') [1]] \<and>
      calls (run (\<lambda>h i. False) (Call ''a'' [1] # burst_events [(50, ''b'', [2])] @ [Advance 99]) w0) =
        [Invocation 0 (Some ''a'') [1]] \<and>
      calls (run (\<lambda>h i. False) (Call ''a'' [1] # burst_events [(50, ''b'', [2])] @ [Advance 100]) w0) =
        [Invocation 0 (Some ''a'') [1], Invocation 150 (Some ''b'') [2]]"
  using both_burst[where f = "JFunction 0 []" and wt = "JNum (Fin 100)" and mo = "JStr ''both''"
      and c = "\<lparr>wait = Fin 100, mode = BOTH, timeoutId = None, lastArgs = None,
            lastThis = None, leadingCalled = False\<rparr>" and ms = 100
      and fn = "\<lambda>h i. False" and evs = "[]" and ?t0.0 = 0 and r = "''a''" and a = "[1::nat]"
      and cs = "[(50, ''b'', [2])]" and d = 99, OF _ _ _ refl]
    both_burst[where f = "JFunction 0 []" and wt = "JNum (Fin 100)" and mo = "JStr ''both''"
      and c = "\<lparr>wait = Fin 100, mode = BOTH, timeoutId = None, lastArgs = None,
            lastThis = None, leadingCalled = False\<rparr>" and ms = 100
      and fn = "\<lambda>h i. False" and evs = "[]" and ?t0.0 = 0 and r = "''a''" and a = "[1::nat]"
      and cs = "[(50, ''b'', [2])]" and d = 100, OF _ _ _ refl]
  by (simp add: debounce_def coalesce_def mode_values_def run_Nil start_def)

text \<open>
  C2, counterexample to the claim as stated: in mode \<open>BOTH\<close> with wait \<open>100\<close> and a
  target that raises on its second invocation only, a first burst (a call at \<open>0\<close>)
  invokes at \<open>0\<close> and at \<open>100\<close>, where the trailing invocation raises and the callback
  resets nothing. At \<open>150\<close> no timer is left, yet \<open>leadingCalled\<close> is still set, and
  the burst that starts there (a call at \<open>150\<close>, then silence) makes one invocation,
  at \<open>250\<close>, and none at its first call.
\<close>

theorem both_burst_after_raised_trailing:
  "let c = \<lparr>wait = Fin 100, mode = BOTH, timeoutId = None, lastArgs = None,
            lastThis = None, leadingCalled = False\<rparr>;
       fn = (\<lambda>h i. length h = 1);
       w0 = run fn [Call ''a'' [1::nat], Advance 150] (start c 0)
   in debounce (JFunction 0 []) (JNum (Fin 100)) (JStr ''both'') = Inr c \<and>
      timers w0 = [] \<and> leadingCalled w0 \<and>
      calls w0 = [Invocation 0 (Some ''a'') [1], Invocation 100 (Some ''a'') [1]] \<and>
      calls (step fn (Call ''b'' [2]) w0) = calls w0 \<and>
      calls (run fn (Call ''b'' [2] # burst_events [] @ [Advance 100]) w0) =
        calls w0 @ [Invocation 250 (Some ''b'') [2]]"
proof -
  have c: "debounce (JFunction 0 []) (JNum (Fin 100)) (JStr ''both'') =
      Inr \<lparr>wait = Fin 100, mode = BOTH, timeoutId = None, lastArgs = None,
            lastThis = None, leadingCalled = False\<rparr>"
    by (simp add: debounce_def coalesce_def mode_values_def)
  have w0: "run (\<lambda>h i. length h = 1) [Call ''a'' [1::nat], Advance 150]
      (start \<lparr>wait = Fin 100, mode = BOTH, timeoutId = None, lastArgs = None,
            lastThis = None, leadingCalled = False\<rparr> 0) =
      \<lparr>wait = Fin 100, mode = BOTH, timeoutId = Some 1, lastArgs = Some [1],
       lastThis = Some ''a'', leadingCalled = True, now = 150, timers = [],
       next_handle = 2,
       calls = [Invocation 0 (Some ''a'') [1], Invocation 100 (Some ''a'') [1]]\<rparr>"
    by (simp add: eval_defs)
  show ?thesis
    unfolding Let_def w0 using c by (simp add: eval_defs)
qed

text \<open>
  C3. A controller in mode \<open>LEADING\<close> with a finite wait \<open>ms\<close>, in a reachable state \<open>w0\<close>
  with no burst open, is called with a target that returns from this first
  invocation, and called again by each entry of \<open>cs\<close> less than \<open>ms\<close> after the call
  before; \<open>w1\<close> is the state after the burst and \<open>w2\<close> the state \<open>d\<close> later. The first
  call invokes the target at once with its own receiver and arguments; the later
  calls invoke nothing and leave one timer, due \<open>ms\<close> after the last call; the passing
  of time invokes nothing; before the timer is due the burst stays open; once it is
  due the state is reset (no timer, no handle, \<open>leadingCalled\<close> false), and the next
  call invokes the target at once.
\<close>

theorem leading_burst:
  assumes "debounce f wt mo = Inr c" and "mode c = LEADING" and "wait c = Fin ms"
    and "w0 = run fn evs (start c t0)"
    and "\<not> leadingCalled w0"
    and "\<not> fn (calls w0) (Invocation (now w0) (Some r) a)"
    and "\<forall>(gap, this, args) \<in> set cs. 0 \<le> gap \<and> gap < ms"
    and "0 \<le> d"
  shows "let w1 = run fn (Call r a # burst_events cs) w0; w2 = advance fn d w1 in
     calls (step fn (Call r a) w0) = calls w0 @ [Invocation (now w0) (Some r) a] \<and>
     calls w1 = calls w0 @ [Invocation (now w0) (Some r) a] \<and>
     map t_due (timers w1) = [now w0 + span cs + ms] \<and>
     calls w2 = calls w1 \<and>
     (d < ms \<longrightarrow> timers w2 = timers w1 \<and> leadingCalled w2) \<and>
     (ms \<le> d \<longrightarrow>
        timers w2 = [] \<and> timeoutId w2 = None \<and> \<not> leadingCalled w2 \<and>
        calls (step fn (Call r' a') w2) =
          calls w2 @ [Invocation (now w0 + span cs + d) (Some r') a'])"
proof -
  have ms: "0 \<le> ms"
    using assms(1,3) by (rule debounce_wait)
  have s: "sound w0"
    using assms(1,4) by (simp add: sound_reachable)
  have cfg: "mode w0 = LEADING" "wait w0 = Fin ms"
    using assms(2,3,4) by (simp_all add: config_reachable)
  let ?w1 = "run fn (Call r a # burst_events cs) w0"
  let ?w2 = "advance fn d ?w1"
  from burst_from[of w0 ms fn r a cs] s cfg ms assms(5,6,7)
  have b: "armed ?w1 (now ?w1 + ms) (fst (last_call (r, a) cs)) (snd (last_call (r, a) cs))"
    "now ?w1 = now w0 + span cs" "mode ?w1 = LEADING"
    "calls ?w1 = calls w0 @ [Invocation (now w0) (Some r) a]"
    by auto
  have first: "calls (step fn (Call r a) w0) = calls w0 @ [Invocation (now w0) (Some r) a]"
    using call_leads[of w0 fn r a] cfg(1) assms(5) by simp
  have due: "map t_due (timers ?w1) = [now w0 + span cs + ms]"
    using armed_timer[OF b(1)] b(2) by simp
  have lead1: "leadingCalled ?w1"
    using b(1,3) by (auto simp: armed_def sound_def split: list.splits)
  note adv = burst_then_advance[OF b(1) ms assms(8), of fn]
  have same: "calls ?w2 = calls ?w1"
    using adv b(3) by simp
  have early: "timers ?w2 = timers ?w1 \<and> leadingCalled ?w2" if "d < ms"
    using advance_early[OF b(1) assms(8), of fn] that lead1 by simp
  have late: "timers ?w2 = [] \<and> timeoutId ?w2 = None \<and> \<not> leadingCalled ?w2 \<and>
        calls (step fn (Call r' a') ?w2) =
          calls ?w2 @ [Invocation (now w0 + span cs + d) (Some r') a']" if "ms \<le> d"
  proof -
    from adv that b(3) have closed: "timers ?w2 = []" "timeoutId ?w2 = None"
      "\<not> leadingCalled ?w2" "now ?w2 = now ?w1 + d"
      by auto
    have "mode ?w2 = LEADING"
      using b(3) by (simp add: config_advance)
    with call_leads[of ?w2 fn r' a'] closed b(2) show ?thesis
      by simp
  qed
  show ?thesis
    unfolding Let_def using first b(4) due same early late by blast
qed

text \<open>
  C3, witness: the example of the specification. Wait \<open>100\<close>, three calls at \<open>0\<close>: one
  invocation; at \<open>100\<close> the state is reset and a fourth call invokes at once.
\<close>

theorem leading_burst_witness:
  "let c = \<lparr>wait = Fin 100, mode = LEADING, timeoutId = None, lastArgs = None,
            lastThis = None, leadingCalled = False\<rparr>;
       w0 = run (\<lambda>h i. False) [] (start c 0);
       w1 = run (\<lambda>h i. False) (Call ''a'' [1::nat] # burst_events [(0, ''b'', [2]), (0, ''c'', [3])]) w0;
       w2 = advance (\<lambda>h i. False) 100 w1
   in debounce (JFunction 0 []) (JNum (Fin 100)) (JObject [(''mode'', JStr ''leading'')]) = Inr c \<and>
      \<not> leadingCalled w0 \<and>
      calls w1 = [Invocation 0 (Some ''a'') [1]] \<and>
      map t_due (timers w1) = [100] \<and>
      calls w2 = [Invocation 0 (Some ''a'') [1]] \<and>
      timeoutId w2 = None \<and> \<not> leadingCalled w2 \<and>
      calls (step (\<lambda>h i. False) (Call ''d'' [4]) w2) =
        [Invocation 0 (Some ''a'') [1], Invocation 100 (Some ''d'') [4]]"
  using leading_burst[where f = "JFunction 0 []" and wt = "JNum (Fin 100)"
      and mo = "JObject [(''mode'', JStr ''leading'')]"
      and c = "\<lparr>wait = Fin 100, mode = LEADING, timeoutId = None, lastArgs = None,
            lastThis = None, leadingCalled = False\<rparr>" and ms = 100
      and fn = "\<lambda>h i. False" and evs = "[]" and ?t0.0 = 0 and r = "''a''" and a = "[1::nat]"
      and cs = "[(0, ''b'', [2]), (0, ''c'', [3])]" and d = 100 and r' = "''d''" and a' = "[4]",
      OF _ _ _ refl]
  by (simp add: debounce_def coalesce_def mode_values_def run_Nil start_def Let_def)

section \<open>The control operations\<close>

text \<open>
  C6. In every reachable state \<open>w\<close>, \<open>flush\<close> invokes the target exactly when \<open>pending\<close>
  answers true. Then the facility holds no timer afterwards, \<open>pending\<close> answers false,
  the one invocation is made at the present instant with the recorded receiver and
  arguments, and when the target returns from it \<open>flush\<close> returns with \<open>leadingCalled\<close>
  false. When nothing is pending \<open>flush\<close> returns and the state is unchanged. After a
  call that returned, the recorded receiver and arguments are those of that call.
\<close>

theorem flush_behaviour:
  assumes "debounce f wt mo = Inr c" and "w = run fn evs (start c t0)"
  shows "(calls (snd (flush fn w)) \<noteq> calls w \<longleftrightarrow> fst (pending w)) \<and>
     (fst (pending w) \<longrightarrow>
        timers (snd (flush fn w)) = [] \<and> \<not> fst (pending (snd (flush fn w))) \<and>
        (\<exists>args. lastArgs w = Some args \<and>
           calls (snd (flush fn w)) = calls w @ [Invocation (now w) (lastThis w) args] \<and>
           (\<not> fn (calls w) (Invocation (now w) (lastThis w) args) \<longrightarrow>
              fst (flush fn w) = Returned \<and> \<not> leadingCalled (snd (flush fn w))))) \<and>
     (\<not> fst (pending w) \<longrightarrow> flush fn w = (Returned, w)) \<and>
     (\<forall>r a. fst (debounced fn r a w) = Returned \<longrightarrow>
        calls (snd (flush fn (snd (debounced fn r a w)))) =
          calls (snd (debounced fn r a w)) @ [Invocation (now w) (Some r) a])"
proof -
  have s: "sound w"
    using assms by (simp add: sound_reachable)
  have idle: "flush fn w = (Returned, w)" if "\<not> fst (pending w)"
    using that by (simp add: pending_def flush_idle)
  have busy: "timers (snd (flush fn w)) = [] \<and> \<not> fst (pending (snd (flush fn w))) \<and>
        (\<exists>args. lastArgs w = Some args \<and>
           calls (snd (flush fn w)) = calls w @ [Invocation (now w) (lastThis w) args] \<and>
           (\<not> fn (calls w) (Invocation (now w) (lastThis w) args) \<longrightarrow>
              fst (flush fn w) = Returned \<and> \<not> leadingCalled (snd (flush fn w))))"
    if "fst (pending w)"
  proof -
    from that have "timeoutId w \<noteq> None"
      by (simp add: pending_def)
    from flush_pending[OF s this, of fn] show ?thesis
      by (auto simp: pending_def split: if_splits)
  qed
  have iff: "calls (snd (flush fn w)) \<noteq> calls w \<longleftrightarrow> fst (pending w)"
    using idle busy by (cases "fst (pending w)") auto
  have after: "calls (snd (flush fn (snd (debounced fn r a w)))) =
          calls (snd (debounced fn r a w)) @ [Invocation (now w) (Some r) a]"
    if "fst (debounced fn r a w) = Returned" for r a
  proof -
    let ?w1 = "snd (debounced fn r a w)"
    have s1: "sound ?w1"
      using s by (rule sound_debounced)
    have "timeoutId ?w1 \<noteq> None"
      using call_returned[OF s that] by simp
    from flush_pending[OF s1 this, of fn] call_records[of fn r a w] show ?thesis
      by auto
  qed
  show ?thesis
    using iff busy idle after by blast
qed

text \<open>
  C6, witness: in mode \<open>TRAILING\<close> with wait \<open>100\<close>, a flush before any call does nothing,
  and a flush at \<open>30\<close> after a call at \<open>0\<close> invokes the target at \<open>30\<close> with that call's
  arguments.
\<close>

theorem flush_behaviour_witness:
  "let c = \<lparr>wait = Fin 100, mode = TRAILING, timeoutId = None, lastArgs = None,
            lastThis = None, leadingCalled = False\<rparr>;
       w0 = run (\<lambda>h i. False) [] (start c 0);
       w = run (\<lambda>h i. False) [Call ''a'' [1::nat], Advance 30] (start c 0)
   in debounce (JFunction 0 []) (JNum (Fin 100)) JUndefined = Inr c \<and>
      fst (pending w) \<and>
      flush (\<lambda>h i. False) w0 = (Returned, w0) \<and>
      fst (flush (\<lambda>h i. False) w) = Returned \<and>
      calls (snd (flush (\<lambda>h i. False) w)) = [Invocation 30 (Some ''a'') [1]] \<and>
      timers (snd (flush (\<lambda>h i. False) w)) = [] \<and>
      \<not> fst (pending (snd (flush (\<lambda>h i. False) w)))"
  using flush_behaviour[where f = "JFunction 0 []" and wt = "JNum (Fin 100)" and mo = JUndefined
      and c = "\<lparr>wait = Fin 100, mode = TRAILING, timeoutId = None, lastArgs = None,
            lastThis = None, leadingCalled = False\<rparr>"
      and fn = "\<lambda>h i. False" and evs = "[Call ''a'' [1::nat], Advance 30]" and ?t0.0 = 0,
      OF _ refl]
    flush_behaviour[where f = "JFunction 0 []" and wt = "JNum (Fin 100)" and mo = JUndefined
      and c = "\<lparr>wait = Fin 100, mode = TRAILING, timeoutId = None, lastArgs = None,
            lastThis = None, leadingCalled = False\<rparr>"
      and fn = "\<lambda>h i. False" and evs = "[]::(string, nat) event list" and ?t0.0 = 0,
      OF _ refl]
  by (simp add: eval_defs)

text \<open>
  C7. In every reachable state \<open>w\<close>, \<open>cancel\<close> invokes nothing, leaves no timer with the
  facility, no handle owned and \<open>leadingCalled\<close> false; a second \<open>cancel\<close> changes
  nothing more, and with nothing pending \<open>cancel\<close> only clears \<open>leadingCalled\<close>. However
  much time passes after it, nothing is invoked; and outside mode \<open>TRAILING\<close> the next
  call, whenever it comes, invokes the target at once with its receiver and arguments.
\<close>

theorem cancel_behaviour:
  assumes "debounce f wt mo = Inr c" and "w = run fn evs (start c t0)"
  shows "calls (cancel w) = calls w \<and> timers (cancel w) = [] \<and> \<not> fst (pending (cancel w)) \<and>
     \<not> leadingCalled (cancel w) \<and>
     cancel (cancel w) = cancel w \<and>
     (\<not> fst (pending w) \<longrightarrow> cancel w = w\<lparr>leadingCalled := False\<rparr>) \<and>
     (\<forall>d. calls (advance fn d (cancel w)) = calls w) \<and>
     (mode c \<noteq> TRAILING \<longrightarrow>
        (\<forall>d r a. 0 \<le> d \<longrightarrow>
           calls (step fn (Call r a) (advance fn d (cancel w))) =
             calls w @ [Invocation (now w + d) (Some r) a]))"
proof -
  have s: "sound w"
    using assms by (simp add: sound_reachable)
  note c = cancel_sound[OF s]
  have quiet_later: "calls (advance fn d (cancel w)) = calls w" for d
    using c by (simp add: advance_no_timer)
  have again: "calls (step fn (Call r a) (advance fn d (cancel w))) =
             calls w @ [Invocation (now w + d) (Some r) a]"
    if "mode c \<noteq> TRAILING" and "0 \<le> d" for d r a
  proof -
    let ?w1 = "advance fn d (cancel w)"
    have eq: "?w1 = (cancel w)\<lparr>now := now w + d\<rparr>"
      using c that(2) by (simp add: advance_no_timer)
    have "mode ?w1 \<noteq> TRAILING"
      using that(1) assms(2) by (simp add: config_advance config_cancel config_reachable)
    moreover have "\<not> leadingCalled ?w1"
      unfolding eq by (simp add: cancel_resets)
    ultimately show ?thesis
      using call_leads[of ?w1 fn r a] c by (simp add: eq)
  qed
  show ?thesis
    using c quiet_later again
    by (auto simp: pending_def cancel_resets cancel_twice cancel_idle)
qed

text \<open>
  C7, witness: in mode \<open>LEADING\<close> with wait \<open>100\<close>, a call, a cancel and a second call:
  two invocations, as in the test suite.
\<close>

theorem cancel_behaviour_witness:
  "let c = \<lparr>wait = Fin 100, mode = LEADING, timeoutId = None, lastArgs = None,
            lastThis = None, leadingCalled = False\<rparr>;
       w = run (\<lambda>h i. False) [Call ''a'' [1::nat]] (start c 0)
   in debounce (JFunction 0 []) (JNum (Fin 100)) (JStr ''leading'') = Inr c \<and>
      mode c \<noteq> TRAILING \<and>
      calls (cancel w) = [Invocation 0 (Some ''a'') [1]] \<and>
      timers (cancel w) = [] \<and> \<not> fst (pending (cancel w)) \<and> \<not> leadingCalled (cancel w) \<and>
      calls (advance (\<lambda>h i. False) 100 (cancel w)) = [Invocation 0 (Some ''a'') [1]] \<and>
      calls (step (\<lambda>h i. False) (Call ''b'' [2]) (advance (\<lambda>h i. False) 0 (cancel w))) =
        [Invocation 0 (Some ''a'') [1], Invocation 0 (Some ''b'') [2]]"
  using cancel_behaviour[where f = "JFunction 0 []" and wt = "JNum (Fin 100)"
      and mo = "JStr ''leading''"
      and c = "\<lparr>wait = Fin 100, mode = LEADING, timeoutId = None, lastArgs = None,
            lastThis = None, leadingCalled = False\<rparr>"
      and fn = "\<lambda>h i. False" and evs = "[Call ''a'' [1::nat]]" and ?t0.0 = 0,
      OF _ refl]
  by (simp add: eval_defs)

text \<open>
  C8, as amended. In every reachable state \<open>w\<close>, \<open>pending\<close> leaves the state as it is
  and answers whether a handle is owned. It answers false on a controller just
  constructed, true after a call that returned (which has scheduled a timer), false
  after \<open>cancel\<close> and false after \<open>flush\<close>. While the target never raises, it answers
  true exactly when the facility holds a timer of the controller, and false once the
  timer has fired. For any target it answers true while the facility holds a timer,
  and once the timer has fired it answers false unless the callback invoked the
  target and that invocation raised: then, and only then, it still answers true.
\<close>

theorem pending_behaviour:
  assumes "debounce f wt mo = Inr c" and "w = run fn evs (start c t0)"
  shows "snd (pending w) = w \<and> (fst (pending w) \<longleftrightarrow> timeoutId w \<noteq> None) \<and>
     \<not> fst (pending (start c t0)) \<and>
     (\<forall>r a. fst (debounced fn r a w) = Returned \<longrightarrow>
        timers (snd (debounced fn r a w)) \<noteq> [] \<and> fst (pending (snd (debounced fn r a w)))) \<and>
     \<not> fst (pending (cancel w)) \<and>
     \<not> fst (pending (snd (flush fn w))) \<and>
     (never_raises fn \<longrightarrow>
        (fst (pending w) \<longleftrightarrow> timers w \<noteq> []) \<and>
        (\<forall>d. timers (advance fn d w) \<noteq> timers w \<longrightarrow> \<not> fst (pending (advance fn d w)))) \<and>
     (timers w \<noteq> [] \<longrightarrow> fst (pending w)) \<and>
     (\<forall>d. timers (advance fn d w) \<noteq> timers w \<longrightarrow>
        (fst (pending (advance fn d w)) \<longleftrightarrow>
           (\<exists>i. calls (advance fn d w) = calls w @ [i] \<and> fn (calls w) i)))"
proof -
  have s: "sound w"
    using assms by (simp add: sound_reachable)
  have holds: "timers w \<noteq> [] \<longrightarrow> fst (pending w)"
    using s by (auto simp: sound_def pending_def split: list.splits)
  have after_fire: "fst (pending (advance fn d w)) \<longleftrightarrow>
           (\<exists>i. calls (advance fn d w) = calls w @ [i] \<and> fn (calls w) i)"
    if "timers (advance fn d w) \<noteq> timers w" for d
    using fire_pending[OF s that] by (simp add: pending_def)
  have fresh: "\<not> fst (pending (start c t0))"
    using debounce_initial[OF assms(1)] by (simp add: pending_def start_def)
  have called: "timers (snd (debounced fn r a w)) \<noteq> [] \<and> fst (pending (snd (debounced fn r a w)))"
    if "fst (debounced fn r a w) = Returned" for r a
    using call_returned[OF s that] by (simp add: pending_def)
  have cancelled: "\<not> fst (pending (cancel w))"
    using cancel_sound[OF s] by (simp add: pending_def)
  have flushed: "\<not> fst (pending (snd (flush fn w)))"
  proof (cases "timeoutId w")
    case None
    then show ?thesis by (simp add: flush_idle pending_def)
  next
    case (Some h)
    then have "timeoutId w \<noteq> None" by simp
    from flush_pending[OF s this, of fn] show ?thesis
      by (auto simp: pending_def)
  qed
  have calm: "(fst (pending w) \<longleftrightarrow> timers w \<noteq> []) \<and>
        (\<forall>d. timers (advance fn d w) \<noteq> timers w \<longrightarrow> \<not> fst (pending (advance fn d w)))"
    if nr: "never_raises fn"
  proof -
    have q: "quiet w"
      using assms nr by (simp add: quiet_reachable)
    have held: "fst (pending w) \<longleftrightarrow> timers w \<noteq> []"
      using q by (auto simp: quiet_def sound_def pending_def split: list.splits)
    have fired: "\<not> fst (pending (advance fn d w))" if "timers (advance fn d w) \<noteq> timers w" for d
    proof -
      have "quiet (advance fn d w)"
        using nr q by (rule quiet_advance)
      moreover have "timers (advance fn d w) = []"
        using advance_cases[OF s that] by simp
      ultimately show ?thesis
        by (auto simp: quiet_def pending_def)
    qed
    show ?thesis
      using held fired by blast
  qed
  have old: "snd (pending w) = w \<and> (fst (pending w) \<longleftrightarrow> timeoutId w \<noteq> None) \<and>
     \<not> fst (pending (start c t0)) \<and>
     (\<forall>r a. fst (debounced fn r a w) = Returned \<longrightarrow>
        timers (snd (debounced fn r a w)) \<noteq> [] \<and> fst (pending (snd (debounced fn r a w)))) \<and>
     \<not> fst (pending (cancel w)) \<and>
     \<not> fst (pending (snd (flush fn w))) \<and>
     (never_raises fn \<longrightarrow>
        (fst (pending w) \<longleftrightarrow> timers w \<noteq> []) \<and>
        (\<forall>d. timers (advance fn d w) \<noteq> timers w \<longrightarrow> \<not> fst (pending (advance fn d w))))"
    using fresh called cancelled flushed calm by (auto simp: pending_def)
  show ?thesis
    using old holds after_fire by blast
qed

text \<open>
  C8, witness: in mode \<open>TRAILING\<close> with wait \<open>100\<close>: false at first, true after a call,
  false once \<open>100\<close> has passed, false after a cancel, false after a flush.
\<close>

theorem pending_behaviour_witness:
  "let c = \<lparr>wait = Fin 100, mode = TRAILING, timeoutId = None, lastArgs = None,
            lastThis = None, leadingCalled = False\<rparr>;
       w = run (\<lambda>h i. False) [Call ''a'' [1::nat]] (start c 0)
   in debounce (JFunction 0 []) (JNum (Fin 100)) JUndefined = Inr c \<and>
      never_raises (\<lambda>h i. False) \<and>
      \<not> fst (pending (start c 0)) \<and>
      fst (pending w) \<and> snd (pending w) = w \<and>
      timers (advance (\<lambda>h i. False) 100 w) \<noteq> timers w \<and>
      \<not> fst (pending (advance (\<lambda>h i. False) 100 w)) \<and>
      \<not> fst (pending (cancel w)) \<and>
      \<not> fst (pending (snd (flush (\<lambda>h i. False) w)))"
  using pending_behaviour[where f = "JFunction 0 []" and wt = "JNum (Fin 100)" and mo = JUndefined
      and c = "\<lparr>wait = Fin 100, mode = TRAILING, timeoutId = None, lastArgs = None,
            lastThis = None, leadingCalled = False\<rparr>"
      and fn = "\<lambda>h i. False" and evs = "[Call ''a'' [1::nat]]" and ?t0.0 = 0,
      OF _ refl]
  by (simp add: eval_defs)

text \<open>
  C8, counterexample to the claim as stated: in mode \<open>TRAILING\<close> with wait \<open>100\<close> and a
  target that raises, a call at \<open>0\<close> and the passing of \<open>100\<close>: the timer has fired
  and invoked the target, the facility holds no timer, and \<open>pending\<close> still answers
  true.
\<close>

theorem pending_after_raised_trailing:
  "let c = \<lparr>wait = Fin 100, mode = TRAILING, timeoutId = None, lastArgs = None,
            lastThis = None, leadingCalled = False\<rparr>;
       w = run (\<lambda>h i. True) [Call ''a'' [1::nat], Advance 100] (start c 0)
   in debounce (JFunction 0 []) (JNum (Fin 100)) JUndefined = Inr c \<and>
      timers w = [] \<and> calls w = [Invocation 100 (Some ''a'') [1]] \<and> fst (pending w)"
  by (simp add: eval_defs)

section \<open>A target that raises\<close>

text \<open>
  C9. A controller outside mode \<open>TRAILING\<close>, in a reachable state \<open>w\<close> with
  \<open>leadingCalled\<close> false, is called, and the target raises from the leading
  invocation. Then the call raises; the invocation was made; the facility holds no
  timer and has issued no new handle, so \<open>pending\<close> answers false; the receiver and
  arguments of the call are recorded; \<open>leadingCalled\<close> is still false; and the next
  call invokes the target at once again.
\<close>

theorem leading_raise:
  assumes "debounce f wt mo = Inr c" and "w = run fn evs (start c t0)"
    and "mode c \<noteq> TRAILING" and "\<not> leadingCalled w"
    and "fn (calls w) (Invocation (now w) (Some r) a)"
  shows "let w1 = snd (debounced fn r a w) in
     fst (debounced fn r a w) = Raised \<and>
     calls w1 = calls w @ [Invocation (now w) (Some r) a] \<and>
     timers w1 = [] \<and> next_handle w1 = next_handle w \<and> \<not> fst (pending w1) \<and>
     lastArgs w1 = Some a \<and> lastThis w1 = Some r \<and> \<not> leadingCalled w1 \<and>
     (\<forall>r' a'. calls (step fn (Call r' a') w1) = calls w1 @ [Invocation (now w) (Some r') a'])"
proof -
  have s: "sound w"
    using assms(1,2) by (simp add: sound_reachable)
  have m: "mode w \<noteq> TRAILING"
    using assms(2,3) by (simp add: config_reachable)
  let ?w1 = "snd (debounced fn r a w)"
  have raised: "fst (debounced fn r a w) = Raised \<and> timers ?w1 = [] \<and>
     next_handle ?w1 = next_handle w \<and> timeoutId ?w1 = None \<and> \<not> leadingCalled ?w1"
    using call_raised[of w fn r a] s m assms(4,5) by simp
  have m1: "mode ?w1 \<noteq> TRAILING"
    using m by (simp add: config_debounced)
  have again: "calls (step fn (Call r' a') ?w1) = calls ?w1 @ [Invocation (now w) (Some r') a']"
    for r' a'
    using call_leads[of ?w1 fn r' a'] m1 raised call_records[of fn r a w] by simp
  show ?thesis
    unfolding Let_def
    using raised call_leads[of w fn r a] m assms(4) call_records[of fn r a w] again
    by (simp add: pending_def)
qed

text \<open>
  C9, witness: mode \<open>BOTH\<close>, a target that raises on its first invocation only.
\<close>

theorem leading_raise_witness:
  "let c = \<lparr>wait = Fin 100, mode = BOTH, timeoutId = None, lastArgs = None,
            lastThis = None, leadingCalled = False\<rparr>;
       fn = (\<lambda>h i. h = []);
       w = run fn [] (start c 0);
       w1 = snd (debounced fn ''a'' [1::nat] w)
   in debounce (JFunction 0 []) (JNum (Fin 100)) (JStr ''both'') = Inr c \<and>
      mode c \<noteq> TRAILING \<and> \<not> leadingCalled w \<and> fn (calls w) (Invocation (now w) (Some ''a'') [1]) \<and>
      fst (debounced fn ''a'' [1] w) = Raised \<and>
      calls w1 = [Invocation 0 (Some ''a'') [1]] \<and> timers w1 = [] \<and> \<not> fst (pending w1) \<and>
      lastArgs w1 = Some [1] \<and> lastThis w1 = Some ''a'' \<and> \<not> leadingCalled w1 \<and>
      calls (step fn (Call ''b'' [2]) w1) = [Invocation 0 (Some ''a'') [1], Invocation 0 (Some ''b'') [2]]"
  using leading_raise[where f = "JFunction 0 []" and wt = "JNum (Fin 100)" and mo = "JStr ''both''"
      and c = "\<lparr>wait = Fin 100, mode = BOTH, timeoutId = None, lastArgs = None,
            lastThis = None, leadingCalled = False\<rparr>"
      and fn = "\<lambda>h i. h = []" and evs = "[]" and ?t0.0 = 0 and r = "''a''" and a = "[1::nat]",
      OF _ refl]
  by (simp add: eval_defs)

text \<open>
  C10. In a reachable state \<open>w\<close> with a handle owned, \<open>flush\<close> is called and the target
  raises from its invocation. Then \<open>flush\<close> raises; the facility holds no timer and
  \<open>pending\<close> answers false; \<open>leadingCalled\<close> is what it was; and outside mode \<open>TRAILING\<close>
  it is set, so the next call invokes nothing.
\<close>

theorem flush_raise:
  assumes "debounce f wt mo = Inr c" and "w = run fn evs (start c t0)"
    and "fst (pending w)" and "lastArgs w = Some args"
    and "fn (calls w) (Invocation (now w) (lastThis w) args)"
  shows "let w1 = snd (flush fn w) in
     fst (flush fn w) = Raised \<and>
     calls w1 = calls w @ [Invocation (now w) (lastThis w) args] \<and>
     timers w1 = [] \<and> \<not> fst (pending w1) \<and>
     leadingCalled w1 = leadingCalled w \<and>
     (mode c \<noteq> TRAILING \<longrightarrow>
        leadingCalled w1 \<and> (\<forall>r a. calls (step fn (Call r a) w1) = calls w1))"
proof -
  have s: "sound w"
    using assms(1,2) by (simp add: sound_reachable)
  have p: "timeoutId w \<noteq> None"
    using assms(3) by (simp add: pending_def)
  let ?w1 = "snd (flush fn w)"
  from flush_pending[OF s p, of fn] assms(4,5)
  have fl: "fst (flush fn w) = Raised" "calls ?w1 = calls w @ [Invocation (now w) (lastThis w) args]"
    "timers ?w1 = []" "timeoutId ?w1 = None" "leadingCalled ?w1 = leadingCalled w"
    by auto
  have stuck: "leadingCalled ?w1 \<and> (\<forall>r a. calls (step fn (Call r a) ?w1) = calls ?w1)"
    if "mode c \<noteq> TRAILING"
  proof -
    have "mode w \<noteq> TRAILING"
      using that assms(2) by (simp add: config_reachable)
    with s p have "leadingCalled w"
      by (simp add: sound_def)
    with fl(5) have l1: "leadingCalled ?w1"
      by simp
    then show ?thesis
      by (simp add: call_suppressed)
  qed
  show ?thesis
    unfolding Let_def using fl stuck by (simp add: pending_def)
qed

text \<open>
  C10, witness: mode \<open>LEADING\<close>, a target that raises on every invocation but the first;
  a call, a flush that raises, and a second call that invokes nothing.
\<close>

theorem flush_raise_witness:
  "let c = \<lparr>wait = Fin 100, mode = LEADING, timeoutId = None, lastArgs = None,
            lastThis = None, leadingCalled = False\<rparr>;
       fn = (\<lambda>h i. h \<noteq> []);
       w = run fn [Call ''a'' [1::nat]] (start c 0);
       w1 = snd (flush fn w)
   in debounce (JFunction 0 []) (JNum (Fin 100)) (JStr ''leading'') = Inr c \<and>
      fst (pending w) \<and> lastArgs w = Some [1] \<and>
      fn (calls w) (Invocation (now w) (lastThis w) [1]) \<and>
      fst (flush fn w) = Raised \<and> \<not> fst (pending w1) \<and> leadingCalled w1 \<and>
      calls w1 = [Invocation 0 (Some ''a'') [1], Invocation 0 (Some ''a'') [1]] \<and>
      calls (step fn (Call ''b'' [2]) w1) = calls w1"
  using flush_raise[where f = "JFunction 0 []" and wt = "JNum (Fin 100)" and mo = "JStr ''leading''"
      and c = "\<lparr>wait = Fin 100, mode = LEADING, timeoutId = None, lastArgs = None,
            lastThis = None, leadingCalled = False\<rparr>"
      and fn = "\<lambda>h i. h \<noteq> []" and evs = "[Call ''a'' [1::nat]]" and ?t0.0 = 0 and args = "[1]",
      OF _ refl]
  by (simp add: eval_defs)

end
